theory Spec2Isabelle
  imports Main "HOL-Library.Sublist"
begin

section \<open>The emitter loop of \<^verbatim>\<open>scripts/bin/println.cpp\<close>\<close>

text \<open>
  The program under verification, in full:
  \<^verbatim>\<open>
   4  int main(){
   5    std::cout.setf(std::ios::unitbuf);
   6    while(true){
   7      std::cout << "." << std::endl; // println
   8      // tight loop with minimal sleep to simulate fast sketch
   9      std::this_thread::sleep_for(std::chrono::microseconds(100));
  10    }
  11  }
  \<close>
  It drives two facilities of the C++ standard library, an output stream and a sleep.
  Both are embedded below as state transformers on a record of the process, following
  the behaviour the C++ standard fixes for them (formatted and unformatted output
  functions, the sentry object, \<^verbatim>\<open>endl\<close>, \<^verbatim>\<open>flush\<close>).
\<close>

subsection \<open>Process state\<close>

text \<open>
  What a run leaves behind for an outside observer: a call that changes the stream's
  format flags, a byte arriving on standard output, a completed sleep of so many
  microseconds. Standard output is a byte stream; how bytes are grouped into
  individual flushes is not part of an observation.
\<close>

datatype event = Configured | Byte char | Slept nat

text \<open>
  Everything the platform hands to a process at start. \<^verbatim>\<open>main\<close> is declared without
  parameters, so none of it is bound to a name in the program; it is part of the state
  so that independence from it can be stated.
\<close>

record inputs =
  argv :: "string list"
  envp :: "string list"
  stdin :: string

text \<open>
  The process: its inputs, the state of \<^verbatim>\<open>std::cout\<close> (the \<^verbatim>\<open>unitbuf\<close> format flag,
  whether the stream is still \<^verbatim>\<open>good()\<close>, the characters accepted by the stream buffer
  and not delivered yet), the number of times the stream buffer has tried to hand
  characters to the output device, and the events so far.
\<close>

record process =
  given :: inputs
  unitbuf :: bool
  good :: bool
  pending :: string
  attempts :: nat
  trace :: "event list"

text \<open>
  The output device is the environment's part: for the \<open>k\<close>-th attempt to hand over
  characters it says whether the attempt succeeds. A run that is cut short from outside
  (a signal, a kill) is a prefix of the run described here.
\<close>

type_synonym device = "nat \<Rightarrow> bool"

definition reliable :: device where
  "reliable = (\<lambda>k. True)"

text \<open>
  At process start \<^verbatim>\<open>std::cout\<close> is good, has nothing buffered and does not have
  \<^verbatim>\<open>unitbuf\<close> set (of the standard streams only \<^verbatim>\<open>cerr\<close> starts with it).
\<close>

definition boot :: "inputs \<Rightarrow> process" where
  "boot i = \<lparr>given = i, unitbuf = False, good = True, pending = [], attempts = 0, trace = []\<rparr>"

subsection \<open>The output stream\<close>

definition newline :: char where
  "newline = CHR 0x0A"

text \<open>
  \<^verbatim>\<open>rdbuf()->pubsync()\<close>: hand the buffered characters to the device. With nothing
  buffered there is nothing to hand over and the call succeeds. A refused attempt
  delivers nothing, loses what was buffered and leaves the stream with \<^verbatim>\<open>badbit\<close> set.
\<close>

definition sync :: "device \<Rightarrow> process \<Rightarrow> process" where
  "sync dev p =
     (if pending p = [] then p
      else if dev (attempts p)
      then p\<lparr>pending := [], attempts := Suc (attempts p),
              trace := trace p @ map Byte (pending p)\<rparr>
      else p\<lparr>good := False, pending := [], attempts := Suc (attempts p)\<rparr>)"

text \<open>
  The destructor of the sentry object that every output function constructs: with
  \<^verbatim>\<open>unitbuf\<close> set and the stream good, the buffer is synchronised.
\<close>

definition sentry_exit :: "device \<Rightarrow> process \<Rightarrow> process" where
  "sentry_exit dev p = (if unitbuf p \<and> good p then sync dev p else p)"

text \<open>
  \<^verbatim>\<open>operator<<(ostream&, const char*)\<close>: on a stream that is not good the sentry fails
  and no character is inserted; otherwise the characters go to the stream buffer and
  the sentry is destroyed.
\<close>

definition insert_str :: "device \<Rightarrow> string \<Rightarrow> process \<Rightarrow> process" where
  "insert_str dev s p =
     (if good p then sentry_exit dev (p\<lparr>pending := pending p @ s\<rparr>) else p)"

text \<open>\<^verbatim>\<open>ostream::put\<close>, the unformatted output of one character.\<close>

definition put :: "device \<Rightarrow> char \<Rightarrow> process \<Rightarrow> process" where
  "put dev c p =
     (if good p then sentry_exit dev (p\<lparr>pending := pending p @ [c]\<rparr>) else p)"

text \<open>
  \<^verbatim>\<open>ostream::flush\<close>, an unformatted output function as well: under a sentry, the
  buffer of a good stream is synchronised.
\<close>

definition flush :: "device \<Rightarrow> process \<Rightarrow> process" where
  "flush dev p = (if good p then sentry_exit dev (sync dev p) else p)"

text \<open>\<^verbatim>\<open>std::endl\<close>: \<^verbatim>\<open>os.put(os.widen('\n'))\<close>, then \<^verbatim>\<open>os.flush()\<close>.\<close>

definition endl :: "device \<Rightarrow> process \<Rightarrow> process" where
  "endl dev p = flush dev (put dev newline p)"

text \<open>\<^verbatim>\<open>std::cout.setf(std::ios::unitbuf)\<close>: sets the flag; nothing is written.\<close>

definition setf_unitbuf :: "process \<Rightarrow> process" where
  "setf_unitbuf p = p\<lparr>unitbuf := True, trace := trace p @ [Configured]\<rparr>"

subsection \<open>The sleep\<close>

text \<open>A duration in microseconds, and the sleep of the calling (only) thread.\<close>

definition microseconds :: "nat \<Rightarrow> nat" where
  "microseconds n = n"

definition sleep_for :: "nat \<Rightarrow> process \<Rightarrow> process" where
  "sleep_for d p = p\<lparr>trace := trace p @ [Slept d]\<rparr>"

subsection \<open>\<^verbatim>\<open>main\<close>\<close>

text \<open>Lines 7 to 9, the body of the loop.\<close>

definition loop_body :: "device \<Rightarrow> process \<Rightarrow> process" where
  "loop_body dev p = sleep_for (microseconds 100) (endl dev (insert_str dev ''.'' p))"

text \<open>
  The \<^verbatim>\<open>while(true)\<close> loop, followed by the \<^verbatim>\<open>return 0\<close> that C++ supplies when control
  reaches the end of \<^verbatim>\<open>main\<close>. Not returning is the value \<open>None\<close>.
\<close>

partial_function (option) main_loop :: "device \<Rightarrow> process \<Rightarrow> int option" where
  "main_loop dev p = (if True then main_loop dev (loop_body dev p) else Some 0)"

definition main :: "device \<Rightarrow> process \<Rightarrow> int option" where
  "main dev p = main_loop dev (setf_unitbuf p)"

text \<open>The state after \<open>n\<close> completed passes through the loop body.\<close>

fun iterations :: "device \<Rightarrow> nat \<Rightarrow> process \<Rightarrow> process" where
  "iterations dev 0 p = p"
| "iterations dev (Suc n) p = iterations dev n (loop_body dev p)"

text \<open>
  The same program statement by statement. A control point names the statement that
  runs next; line 7 is two calls of \<^verbatim>\<open>operator<<\<close>, one after the other.
\<close>

datatype pc = Line5_setf | Line6_while | Line7_token | Line7_endl | Line9_sleep | Returned

fun step :: "device \<Rightarrow> pc \<times> process \<Rightarrow> (pc \<times> process) option" where
  "step dev (Line5_setf, p) = Some (Line6_while, setf_unitbuf p)"
| "step dev (Line6_while, p) = Some (if True then Line7_token else Returned, p)"
| "step dev (Line7_token, p) = Some (Line7_endl, insert_str dev ''.'' p)"
| "step dev (Line7_endl, p) = Some (Line9_sleep, endl dev p)"
| "step dev (Line9_sleep, p) = Some (Line6_while, sleep_for (microseconds 100) p)"
| "step dev (Returned, p) = None"

text \<open>\<open>n\<close> statements from a configuration; \<open>None\<close> when the program has ended before.\<close>

fun exec :: "device \<Rightarrow> nat \<Rightarrow> pc \<times> process \<Rightarrow> (pc \<times> process) option" where
  "exec dev 0 c = Some c"
| "exec dev (Suc n) c = (case step dev c of None \<Rightarrow> None | Some c' \<Rightarrow> exec dev n c')"

definition start :: "inputs \<Rightarrow> pc \<times> process" where
  "start i = (Line5_setf, boot i)"

text \<open>\<^verbatim>\<open>main\<close> observed after \<open>n\<close> completed passes through its loop.\<close>

definition run :: "device \<Rightarrow> nat \<Rightarrow> process \<Rightarrow> process" where
  "run dev n p = iterations dev n (setf_unitbuf p)"

text \<open>
  The program with line 5 taken out, for comparison: the loop entered with the stream
  as the platform set it up.
\<close>

definition main_without_unitbuf :: "device \<Rightarrow> process \<Rightarrow> int option" where
  "main_without_unitbuf dev p = main_loop dev p"

definition run_without_unitbuf :: "device \<Rightarrow> nat \<Rightarrow> process \<Rightarrow> process" where
  "run_without_unitbuf dev n p = iterations dev n p"

subsection \<open>Observations\<close>

text \<open>The bytes that have arrived on standard output, in order.\<close>

fun stdout_of :: "event list \<Rightarrow> string" where
  "stdout_of [] = []"
| "stdout_of (Byte c # es) = c # stdout_of es"
| "stdout_of (e # es) = stdout_of es"

definition stdout :: "process \<Rightarrow> string" where
  "stdout p = stdout_of (trace p)"

text \<open>The sleeps that have completed, and the time spent in them.\<close>

fun sleeps_of :: "event list \<Rightarrow> nat list" where
  "sleeps_of [] = []"
| "sleeps_of (Slept d # es) = d # sleeps_of es"
| "sleeps_of (e # es) = sleeps_of es"

definition slept :: "process \<Rightarrow> nat" where
  "slept p = sum_list (sleeps_of (trace p))"

text \<open>The number of complete lines on standard output.\<close>

definition emitted_lines :: "process \<Rightarrow> nat" where
  "emitted_lines p = count_list (stdout p) newline"

text \<open>The number of times the format flags were changed.\<close>

definition configurations :: "process \<Rightarrow> nat" where
  "configurations p = count_list (trace p) Configured"

text \<open>\<open>n\<close> copies of the line \<^verbatim>\<open>.\<close> with its terminator.\<close>

definition dot_lines :: "nat \<Rightarrow> string" where
  "dot_lines n = concat (replicate n (''.'' @ [newline]))"

text \<open>What one pass through the loop shows when every byte is delivered.\<close>

definition pass_events :: "event list" where
  "pass_events = [Byte CHR ''.'', Byte newline, Slept 100]"

text \<open>The events up to the end of the first sleep, when every byte is delivered.\<close>

definition first_pass :: "event list" where
  "first_pass = [Configured, Byte CHR ''.'', Byte newline, Slept 100]"

subsection \<open>Wall-clock time\<close>

text \<open>
  The program decides how long it asks to sleep. How long anything else takes (loading
  the program, scheduling, the writes) is the platform's part, like the device: a
  schedule gives, for the \<open>k\<close>-th statement of a run, the microseconds it takes on top of
  any sleep it asks for.
\<close>

type_synonym schedule = "nat \<Rightarrow> nat"

text \<open>The time the first \<open>n\<close> statements take on a schedule, sleeps left aside.\<close>

fun taken :: "schedule \<Rightarrow> nat \<Rightarrow> nat" where
  "taken lat 0 = 0"
| "taken lat (Suc n) = taken lat n + lat n"

text \<open>
  The time since process start at which the process \<open>p\<close> is seen, when \<open>p\<close> is what \<open>n\<close>
  statements have made of it.
\<close>

definition wall_clock :: "schedule \<Rightarrow> nat \<Rightarrow> process \<Rightarrow> nat" where
  "wall_clock lat n p = taken lat n + slept p"

text \<open>A platform that takes 100 microseconds to get a process through line 5.\<close>

definition slow_start :: schedule where
  "slow_start = (\<lambda>k. if k = 0 then 100 else 0)"

text \<open>
  A string made of lines \<^verbatim>\<open>.\<close> only, the last of which may still lack its terminator.
\<close>

fun dotted :: "string \<Rightarrow> bool" where
  "dotted [] = True"
| "dotted [c] = (c = CHR ''.'')"
| "dotted (c # d # s) = (c = CHR ''.'' \<and> d = newline \<and> dotted s)"

subsection \<open>Invariants of a run\<close>

text \<open>
  What holds of every configuration a run from process start passes through, whatever the
  device does: control has not left the loop; the inputs are as given; the format flags
  were changed by line 5 and by nothing else; while the stream is good nothing is left
  in its buffer, and standard output holds one line per completed sleep, one more when
  the sleep of the current pass is about to start, and the bare token between the two
  calls of line 7; standard output is made of \<^verbatim>\<open>.\<close> lines; every sleep took 100
  microseconds.
\<close>

definition consistent :: "inputs \<Rightarrow> pc \<times> process \<Rightarrow> bool" where
  "consistent i c = (case c of (q, p) \<Rightarrow>
     q \<noteq> Returned \<and> given p = i \<and>
     (if q = Line5_setf then p = boot i
      else unitbuf p \<and> (\<exists>es. trace p = Configured # es \<and> count_list es Configured = 0)) \<and>
     (good p \<longrightarrow> pending p = [] \<and>
        stdout p = dot_lines (length (sleeps_of (trace p)) + (if q = Line9_sleep then 1 else 0))
                   @ (if q = Line7_endl then ''.'' else [])) \<and>
     dotted (stdout p) \<and>
     slept p = 100 * length (sleeps_of (trace p)))"

text \<open>
  A run on any device, set against the run on the reliable device after the same number
  of statements: same control point; identical processes for as long as no write has
  been refused; afterwards the same sleeps, and an output that is an initial part of
  the reliable one.
\<close>

definition shadows :: "pc \<times> process \<Rightarrow> pc \<times> process \<Rightarrow> bool" where
  "shadows c c' = (case (c, c') of ((q, p), (q', p')) \<Rightarrow>
     q \<noteq> Returned \<and> q' = q \<and> good p' \<and>
     (if good p then p' = p
      else sleeps_of (trace p') = sleeps_of (trace p) \<and> prefix (stdout p) (stdout p')))"

text \<open>A configuration with the inputs exchanged.\<close>

definition relabel :: "inputs \<Rightarrow> pc \<times> process \<Rightarrow> pc \<times> process" where
  "relabel j c = (fst c, (snd c)\<lparr>given := j\<rparr>)"

text \<open>A sample of inputs, for concrete runs.\<close>

definition bare :: inputs where
  "bare = \<lparr>argv = [''println''], envp = [], stdin = []\<rparr>"

section \<open>Auxiliary facts\<close>

subsection \<open>Traces and lines\<close>

lemma stdout_of_append [simp]: "stdout_of (es @ fs) = stdout_of es @ stdout_of fs"
  by (induction es rule: stdout_of.induct) simp_all

lemma stdout_of_bytes [simp]: "stdout_of (map Byte s) = s"
  by (induction s) simp_all

lemma sleeps_of_append [simp]: "sleeps_of (es @ fs) = sleeps_of es @ sleeps_of fs"
  by (induction es rule: sleeps_of.induct) simp_all

lemma sleeps_of_bytes [simp]: "sleeps_of (map Byte s) = []"
  by (induction s) simp_all

lemma count_Configured_bytes [simp]: "count_list (map Byte s) Configured = 0"
  by (induction s) simp_all

subsection \<open>Stream operations\<close>

text \<open>The sentry of \<^verbatim>\<open>flush\<close> finds nothing left to do.\<close>

lemma sentry_exit_sync: "sentry_exit dev (sync dev p) = sync dev p"
  by (simp add: sentry_exit_def sync_def)

lemma flush_sync: "flush dev p = (if good p then sync dev p else p)"
  by (simp add: flush_def sentry_exit_sync)

lemmas stream_defs = sync_def sentry_exit_def insert_str_def put_def flush_sync endl_def
lemmas body_defs = loop_body_def sleep_for_def microseconds_def stream_defs

subsection \<open>Passes through the loop\<close>

lemma iterations_Suc_right: "iterations dev (Suc n) p = loop_body dev (iterations dev n p)"
  by (induction n arbitrary: p) simp_all

lemma loop_body_ready:
  assumes "good p" "pending p = []"
  shows "good (loop_body reliable p)" "pending (loop_body reliable p) = []"
    "trace (loop_body reliable p) = trace p @ pass_events"
  using assms by (simp_all add: body_defs reliable_def pass_events_def)

lemma loop_body_frame:
  "unitbuf (loop_body dev p) = unitbuf p" "given (loop_body dev p) = given p"
  by (simp_all add: body_defs)

lemma iterations_ready:
  assumes "good p" "pending p = []"
  shows "good (iterations reliable n p) \<and> pending (iterations reliable n p) = [] \<and>
    trace (iterations reliable n p) = trace p @ concat (replicate n pass_events)"
  using assms
proof (induction n arbitrary: p)
  case 0
  then show ?case by simp
next
  case (Suc n)
  from Suc.prems have "good (loop_body reliable p)" "pending (loop_body reliable p) = []"
    by (rule loop_body_ready)+
  from Suc.IH [OF this] show ?case
    by (simp add: loop_body_ready(3) [OF Suc.prems])
qed

subsection \<open>Statement-by-statement runs\<close>

text \<open>
  A property that holds of a configuration and is kept by every statement holds after
  any number of statements, and the run gets that far.
\<close>

lemma exec_invariant:
  assumes "P c" and "\<And>c. P c \<Longrightarrow> \<exists>c'. step dev c = Some c' \<and> P c'"
  shows "\<exists>c'. exec dev n c = Some c' \<and> P c'"
  using assms(1)
proof (induction n arbitrary: c)
  case 0
  then show ?case by simp
next
  case (Suc n)
  from assms(2) [OF Suc.prems] obtain c' where "step dev c = Some c'" "P c'" by blast
  with Suc.IH [of c'] show ?case by simp
qed

text \<open>Four statements from the head of the loop are one pass.\<close>

lemma exec_add: "exec dev (m + n) c = (case exec dev m c of None \<Rightarrow> None | Some c' \<Rightarrow> exec dev n c')"
  by (induction m arbitrary: c) (simp_all split: option.splits)

lemma exec_pass: "exec dev 4 (Line6_while, p) = Some (Line6_while, loop_body dev p)"
  by (simp add: eval_nat_numeral loop_body_def)

lemma exec_passes: "exec dev (4 * k) (Line6_while, p) = Some (Line6_while, iterations dev k p)"
proof (induction k arbitrary: p)
  case 0
  then show ?case by simp
next
  case (Suc k)
  have "exec dev (4 * Suc k) (Line6_while, p) = exec dev (4 + 4 * k) (Line6_while, p)"
    by simp
  also have "\<dots> = exec dev (4 * k) (Line6_while, loop_body dev p)"
    by (simp only: exec_add exec_pass option.case)
  finally show ?case by (simp add: Suc.IH)
qed

lemma exec_reaches_loop_head:
  "exec dev (Suc (4 * k)) (start i) = Some (Line6_while, run dev k (boot i))"
  by (simp add: start_def run_def exec_passes del: mult_Suc_right)

subsection \<open>Lines of dots\<close>

lemma dot_lines_0 [simp]: "dot_lines 0 = []"
  by (simp add: dot_lines_def)

lemma dot_lines_Suc: "dot_lines (Suc n) = dot_lines n @ ''.'' @ [newline]"
  unfolding dot_lines_def by (induction n) simp_all

lemma length_dot_lines: "length (dot_lines n) = 2 * n"
  by (induction n) (simp_all add: dot_lines_Suc)

lemma count_newline_dot_lines: "count_list (dot_lines n) newline = n"
  by (induction n) (simp_all add: dot_lines_Suc newline_def)

lemma dotted_dot_lines [simp]: "dotted (dot_lines n @ s) = dotted s"
  by (induction n) (simp_all add: dot_lines_def)

lemma dotted_shape: "dotted s \<Longrightarrow> \<exists>k r. s = dot_lines k @ r \<and> (r = [] \<or> r = ''.'')"
proof (induction s rule: dotted.induct)
  case 1
  have "[] = dot_lines 0 @ []" by simp
  then show ?case by blast
next
  case (2 c)
  then have "[c] = dot_lines 0 @ ''.''" by simp
  then show ?case by blast
next
  case (3 c d s)
  then obtain k r where "s = dot_lines k @ r" "r = [] \<or> r = ''.''" by auto
  with 3 have "c # d # s = dot_lines (Suc k) @ r"
    by (simp add: dot_lines_def)
  with \<open>r = [] \<or> r = ''.''\<close> show ?case by blast
qed

subsection \<open>The invariant\<close>

lemma consistent_start: "consistent i (start i)"
  by (simp add: consistent_def start_def boot_def stdout_def slept_def)

lemma consistent_step:
  assumes "consistent i c"
  shows "\<exists>c'. step dev c = Some c' \<and> consistent i c'"
proof -
  obtain q p where c: "c = (q, p)" by (cases c)
  show ?thesis
  proof (cases q)
    case Line5_setf
    with assms c show ?thesis
      by (simp add: consistent_def setf_unitbuf_def boot_def stdout_def slept_def)
  next
    case Line6_while
    with assms c show ?thesis
      by (simp add: consistent_def)
  next
    case Line7_token
    with assms c show ?thesis
      by (auto simp add: consistent_def stdout_def slept_def stream_defs)
  next
    case Line7_endl
    with assms c show ?thesis
      by (auto simp add: consistent_def stdout_def slept_def stream_defs dot_lines_Suc)
  next
    case Line9_sleep
    with assms c show ?thesis
      by (auto simp add: consistent_def stdout_def slept_def sleep_for_def microseconds_def)
  next
    case Returned
    with assms c show ?thesis
      by (simp add: consistent_def)
  qed
qed

lemma exec_consistent: "\<exists>c. exec dev n (start i) = Some c \<and> consistent i c"
  by (rule exec_invariant [where P = "consistent i", OF consistent_start consistent_step])

subsection \<open>Two runs side by side\<close>

lemma exec_invariant2:
  assumes "R c d"
    and "\<And>c d. R c d \<Longrightarrow> \<exists>c' d'. step dev c = Some c' \<and> step dev' d = Some d' \<and> R c' d'"
  shows "\<exists>c' d'. exec dev n c = Some c' \<and> exec dev' n d = Some d' \<and> R c' d'"
  using assms(1)
proof (induction n arbitrary: c d)
  case 0
  then show ?case by simp
next
  case (Suc n)
  from assms(2) [OF Suc.prems] obtain c' d'
    where "step dev c = Some c'" "step dev' d = Some d'" "R c' d'" by blast
  with Suc.IH [of c' d'] show ?case by simp
qed

lemma shadows_start: "shadows (start i) (start i)"
  by (simp add: shadows_def start_def boot_def)

lemma shadows_step:
  assumes "shadows c d"
  shows "\<exists>c' d'. step dev c = Some c' \<and> step reliable d = Some d' \<and> shadows c' d'"
proof -
  obtain q p where c: "c = (q, p)" by (cases c)
  obtain q' p' where d: "d = (q', p')" by (cases d)
  show ?thesis
  proof (cases q)
    case Line5_setf
    with assms c d show ?thesis
      by (auto simp add: shadows_def setf_unitbuf_def stdout_def)
  next
    case Line6_while
    with assms c d show ?thesis
      by (auto simp add: shadows_def)
  next
    case Line7_token
    with assms c d show ?thesis
      by (auto simp add: shadows_def stdout_def stream_defs reliable_def intro: prefix_prefix)
  next
    case Line7_endl
    with assms c d show ?thesis
      by (auto simp add: shadows_def stdout_def stream_defs reliable_def intro: prefix_prefix)
  next
    case Line9_sleep
    with assms c d show ?thesis
      by (auto simp add: shadows_def stdout_def sleep_for_def)
  next
    case Returned
    with assms c d show ?thesis
      by (simp add: shadows_def)
  qed
qed

lemma exec_shadows:
  "\<exists>c d. exec dev n (start i) = Some c \<and> exec reliable n (start i) = Some d \<and> shadows c d"
  by (rule exec_invariant2 [where R = shadows, OF shadows_start shadows_step])

subsection \<open>Exchanging the inputs\<close>

lemma step_relabel:
  "step dev (relabel j c) = map_option (relabel j) (step dev c)"
proof -
  obtain q p where c: "c = (q, p)" by (cases c)
  show ?thesis
    by (cases q) (simp_all add: c relabel_def body_defs setf_unitbuf_def)
qed

lemma exec_relabel:
  "exec dev n (relabel j c) = map_option (relabel j) (exec dev n c)"
  by (induction n arbitrary: c) (simp_all add: step_relabel split: option.splits)

lemma start_relabel: "start j = relabel j (start i)"
  by (simp add: start_def relabel_def boot_def)

subsection \<open>Whole runs\<close>

text \<open>
  The loop has no value: a value would have to come from the \<^verbatim>\<open>else\<close> branch of a
  condition that is the constant \<open>True\<close>.
\<close>

lemma main_loop_diverges: "main_loop dev p = None"
proof (cases "main_loop dev p")
  case None
  then show ?thesis .
next
  case (Some r)
  have "False"
    by (rule main_loop.raw_induct [where P = "\<lambda>d q r. False", OF _ Some]) simp
  then show ?thesis ..
qed

lemma step_defined: "q \<noteq> Returned \<Longrightarrow> step dev (q, p) \<noteq> None"
  by (cases q) simp_all

lemma exec_reliable_good:
  "\<exists>q p. exec reliable n (start i) = Some (q, p) \<and> good p"
proof -
  obtain c d where "exec reliable n (start i) = Some c" "exec reliable n (start i) = Some d"
    "shadows c d"
    using exec_shadows [of reliable n i] by blast
  then show ?thesis
    by (cases c) (auto simp add: shadows_def)
qed

lemma run_ready:
  "good (run reliable n (boot i)) \<and> pending (run reliable n (boot i)) = [] \<and>
   trace (run reliable n (boot i)) = Configured # concat (replicate n pass_events)"
  using iterations_ready [of "setf_unitbuf (boot i)" n]
  by (simp add: run_def setf_unitbuf_def boot_def)

lemma run_without_unitbuf_ready:
  "good (run_without_unitbuf reliable n (boot i)) \<and>
   pending (run_without_unitbuf reliable n (boot i)) = [] \<and>
   trace (run_without_unitbuf reliable n (boot i)) = concat (replicate n pass_events)"
  using iterations_ready [of "boot i" n]
  by (simp add: run_without_unitbuf_def boot_def)

lemma stdout_passes: "stdout_of (concat (replicate n pass_events)) = dot_lines n"
  by (induction n) (simp_all add: pass_events_def dot_lines_def)

lemma dot_lines_literal: "dot_lines n = concat (replicate n ''.\<newline>'')"
  by (simp add: dot_lines_def newline_def)

subsection \<open>After line 5\<close>

lemma step_leaves_line5: "step dev c = Some c' \<Longrightarrow> fst c' \<noteq> Line5_setf"
  by (cases c; cases "fst c") auto

lemma exec_past_line5:
  "\<exists>q p. exec dev (Suc n) (start i) = Some (q, p) \<and> consistent i (q, p) \<and> q \<noteq> Line5_setf"
proof -
  let ?P = "\<lambda>c. consistent i c \<and> fst c \<noteq> Line5_setf"
  obtain c where first: "step dev (start i) = Some c" and "consistent i c"
    using consistent_step [OF consistent_start] by blast
  then have "?P c"
    using step_leaves_line5 by blast
  moreover have "\<exists>c'. step dev c = Some c' \<and> ?P c'" if "?P c" for c
    using that consistent_step [of i c dev] step_leaves_line5 by blast
  ultimately have "\<exists>c'. exec dev n c = Some c' \<and> ?P c'"
    by (rule exec_invariant)
  with first show ?thesis
    by auto
qed

subsection \<open>What a pass adds to the trace\<close>

lemma concat_replicate_snoc: "concat (replicate (Suc n) xs) = concat (replicate n xs) @ xs"
  by (induction n) simp_all

lemma dot_is_not_newline: "CHR ''.'' \<noteq> newline"
  by (simp add: newline_def)

lemma sync_bytes: "\<exists>bs. trace (sync dev p) = trace p @ map Byte bs"
  by (auto simp add: sync_def)

lemma sentry_exit_bytes: "\<exists>bs. trace (sentry_exit dev p) = trace p @ map Byte bs"
  using sync_bytes [of dev p] by (simp add: sentry_exit_def)

lemma insert_str_bytes: "\<exists>bs. trace (insert_str dev s p) = trace p @ map Byte bs"
  using sentry_exit_bytes [of dev "p\<lparr>pending := pending p @ s\<rparr>"] by (simp add: insert_str_def)

lemma put_bytes: "\<exists>bs. trace (put dev c p) = trace p @ map Byte bs"
  using sentry_exit_bytes [of dev "p\<lparr>pending := pending p @ [c]\<rparr>"] by (simp add: put_def)

lemma flush_bytes: "\<exists>bs. trace (flush dev p) = trace p @ map Byte bs"
  using sync_bytes [of dev p] by (simp add: flush_sync)

lemma endl_bytes: "\<exists>bs. trace (endl dev p) = trace p @ map Byte bs"
proof -
  obtain bs where "trace (put dev newline p) = trace p @ map Byte bs"
    using put_bytes by blast
  moreover obtain cs where "trace (endl dev p) = trace (put dev newline p) @ map Byte cs"
    unfolding endl_def using flush_bytes by blast
  ultimately have "trace (endl dev p) = trace p @ map Byte (bs @ cs)"
    by simp
  then show ?thesis ..
qed

lemma loop_body_events:
  "\<exists>bs. trace (loop_body dev p) = trace p @ map Byte bs @ [Slept (microseconds 100)]"
proof -
  obtain bs where "trace (insert_str dev ''.'' p) = trace p @ map Byte bs"
    using insert_str_bytes by blast
  moreover obtain cs
    where "trace (endl dev (insert_str dev ''.'' p)) = trace (insert_str dev ''.'' p) @ map Byte cs"
    using endl_bytes by blast
  ultimately have "trace (loop_body dev p) = trace p @ map Byte (bs @ cs) @ [Slept (microseconds 100)]"
    by (simp add: loop_body_def sleep_for_def)
  then show ?thesis ..
qed

lemma loop_body_sleeps:
  "sleeps_of (trace (loop_body dev p)) = sleeps_of (trace p) @ [100]"
  using loop_body_events [of dev p] by (auto simp add: microseconds_def)

lemma iterations_sleeps:
  "sleeps_of (trace (iterations dev n p)) = sleeps_of (trace p) @ replicate n 100"
  by (induction n) (simp_all add: iterations_Suc_right loop_body_sleeps replicate_append_same del: iterations.simps(2))

lemma loop_body_configurations: "configurations (loop_body dev p) = configurations p"
  using loop_body_events [of dev p] by (auto simp add: configurations_def)

subsection \<open>The first pass\<close>

lemma step_extends_trace:
  assumes "step dev c = Some c'"
  shows "prefix (trace (snd c)) (trace (snd c'))"
proof -
  obtain q p where c: "c = (q, p)" by (cases c)
  show ?thesis
  proof (cases q)
    case Line7_token
    with assms c show ?thesis
      using insert_str_bytes [of dev "''.''" p] by auto
  next
    case Line7_endl
    with assms c show ?thesis
      using endl_bytes [of dev p] by auto
  qed (use assms c in \<open>auto simp add: setf_unitbuf_def sleep_for_def\<close>)
qed

lemma exec_extends_trace:
  "exec dev m c = Some c' \<Longrightarrow> prefix (trace (snd c)) (trace (snd c'))"
proof (induction m arbitrary: c)
  case 0
  then show ?case by simp
next
  case (Suc m)
  then obtain d where d: "step dev c = Some d" and rest: "exec dev m d = Some c'"
    by (auto split: option.splits)
  from step_extends_trace [OF d] Suc.IH [OF rest] show ?case
    by (rule prefix_order.trans)
qed

lemma first_pass_trace: "trace (run reliable 1 (boot i)) = first_pass"
  using run_ready [of 1 i] by (simp add: pass_events_def first_pass_def)

lemma before_first_sleep:
  "exec reliable 4 (start i) =
     Some (Line9_sleep, endl reliable (insert_str reliable ''.'' (setf_unitbuf (boot i))))"
  "trace (endl reliable (insert_str reliable ''.'' (setf_unitbuf (boot i)))) =
     [Configured, Byte CHR ''.'', Byte newline]"
  by (simp_all add: eval_nat_numeral start_def setf_unitbuf_def boot_def stream_defs reliable_def)

lemma no_sleep_in_first_statements:
  assumes "n < 5"
  shows "\<exists>q p. exec reliable n (start i) = Some (q, p) \<and> slept p = 0"
proof -
  from assms consider "n = 0" | "n = 1" | "n = 2" | "n = 3" | "n = 4"
    by linarith
  then show ?thesis
    by cases
      (simp_all add: eval_nat_numeral start_def setf_unitbuf_def boot_def stream_defs
        reliable_def slept_def)
qed

lemma first_pass_stays:
  assumes "5 \<le> n"
  shows "\<exists>q p. exec reliable n (start i) = Some (q, p) \<and> prefix first_pass (trace p)"
proof -
  obtain q p where run: "exec reliable n (start i) = Some (q, p)"
    using exec_consistent [of reliable n i] by auto
  from assms have "n = 5 + (n - 5)" by simp
  then have "exec reliable n (start i) =
      (case exec reliable 5 (start i) of None \<Rightarrow> None | Some c \<Rightarrow> exec reliable (n - 5) c)"
    using exec_add [of reliable 5 "n - 5" "start i"] by simp
  moreover have "exec reliable 5 (start i) = Some (Line6_while, run reliable 1 (boot i))"
    using exec_reaches_loop_head [of reliable 1 i] by simp
  ultimately have "exec reliable (n - 5) (Line6_while, run reliable 1 (boot i)) = Some (q, p)"
    using run by simp
  from exec_extends_trace [OF this] have "prefix first_pass (trace p)"
    by (simp only: first_pass_trace snd_conv)
  with run show ?thesis by blast
qed

lemma first_pass_shows_line:
  assumes "prefix first_pass (trace p)"
  shows "prefix ''.\<newline>'' (stdout p)" "0 < emitted_lines p"
proof -
  from assms obtain es where "trace p = first_pass @ es"
    by (auto simp add: prefix_def)
  then have out: "stdout p = ''.\<newline>'' @ stdout_of es"
    by (simp add: stdout_def first_pass_def newline_def)
  then show "prefix ''.\<newline>'' (stdout p)"
    by simp
  from out show "0 < emitted_lines p"
    by (simp add: emitted_lines_def newline_def)
qed

section \<open>Properties of the program\<close>

text \<open>
  Claim C1. Whatever the device does and however many statements have run, standard
  output holds some number of copies of the line \<^verbatim>\<open>.\<close>, each with exactly one line
  terminator, followed by nothing or by the token of the line that is being written.
  Nothing else ever appears there.
\<close>
theorem stdout_only_dot_lines:
  "\<exists>q p k r. exec dev n (start i) = Some (q, p) \<and>
     stdout p = concat (replicate k ''.\<newline>'') @ r \<and> (r = [] \<or> r = ''.'')"
proof -
  obtain q p where run: "exec dev n (start i) = Some (q, p)" and inv: "consistent i (q, p)"
    using exec_consistent [of dev n i] by auto
  from inv have "dotted (stdout p)"
    by (simp add: consistent_def)
  then obtain k r where "stdout p = dot_lines k @ r" "r = [] \<or> r = ''.''"
    using dotted_shape by blast
  with run show ?thesis
    unfolding dot_lines_literal by blast
qed

text \<open>
  Claim C2. \<^verbatim>\<open>main\<close> returns no value. After any number of statements the program is at a
  control point other than the end of \<^verbatim>\<open>main\<close> and has a next statement to run. For each
  \<open>k\<close> the head of the loop is reached with \<open>k\<close> passes completed, and the next pass, a
  write and then a sleep, follows.
\<close>
theorem main_never_returns:
  "main dev (boot i) = None \<and>
   (\<exists>q p. exec dev n (start i) = Some (q, p) \<and> q \<noteq> Returned \<and> step dev (q, p) \<noteq> None) \<and>
   exec dev (Suc (4 * k)) (start i) = Some (Line6_while, run dev k (boot i)) \<and>
   run dev (Suc k) (boot i) = loop_body dev (run dev k (boot i))"
proof -
  obtain q p where run: "exec dev n (start i) = Some (q, p)" and inv: "consistent i (q, p)"
    using exec_consistent [of dev n i] by auto
  from inv have "q \<noteq> Returned"
    by (simp add: consistent_def)
  with run have "\<exists>q p. exec dev n (start i) = Some (q, p) \<and> q \<noteq> Returned \<and> step dev (q, p) \<noteq> None"
    using step_defined by blast
  moreover have "main dev (boot i) = None"
    by (simp add: main_def main_loop_diverges)
  moreover have "run dev (Suc k) (boot i) = loop_body dev (run dev k (boot i))"
    unfolding run_def by (rule iterations_Suc_right)
  ultimately show ?thesis
    using exec_reaches_loop_head by blast
qed

text \<open>
  Claim C3. On a device that accepts every write the stream stays good. While the stream
  is good, nothing is left in its buffer at any control point, and when control stands
  before the sleep of line 9 standard output already holds one complete line for each
  completed sleep and one more, the line of the current pass.
\<close>
theorem token_flushed_before_sleep:
  "\<exists>q p. exec dev n (start i) = Some (q, p) \<and>
     (dev = reliable \<longrightarrow> good p) \<and>
     (good p \<longrightarrow> pending p = [] \<and>
        (q = Line9_sleep \<longrightarrow> stdout p = dot_lines (Suc (length (sleeps_of (trace p))))))"
proof -
  obtain q p where run: "exec dev n (start i) = Some (q, p)" and inv: "consistent i (q, p)"
    using exec_consistent [of dev n i] by auto
  have "good p" if "dev = reliable"
    using that run exec_reliable_good [of n i] by auto
  moreover have "pending p = []" if "good p"
    using that inv by (simp add: consistent_def)
  moreover have "stdout p = dot_lines (Suc (length (sleeps_of (trace p))))"
    if "good p" "q = Line9_sleep"
    using that inv by (simp add: consistent_def)
  ultimately show ?thesis
    using run by blast
qed

theorem token_flushed_before_sleep_witness:
  "\<exists>p. exec reliable 4 (start bare) = Some (Line9_sleep, p) \<and> good p \<and> pending p = [] \<and>
     stdout p = ''.\<newline>''"
proof -
  have at: "exec reliable 4 (start bare) =
      Some (Line9_sleep, endl reliable (insert_str reliable ''.'' (setf_unitbuf (boot bare))))"
    by (simp add: eval_nat_numeral start_def)
  from token_flushed_before_sleep [of reliable 4 bare] at
  show ?thesis
    by (simp add: dot_lines_def newline_def setf_unitbuf_def boot_def stream_defs reliable_def)
qed

text \<open>
  Claim C4. Every pass through the loop shows the bytes it delivered, if any, and then,
  as its last event, one sleep of 100 microseconds. With every write delivered a pass
  shows the token, its terminator and the sleep. After \<open>n\<close> passes there have been \<open>n\<close>
  sleeps, each of 100 microseconds, \<open>100 * n\<close> microseconds in all.
\<close>
theorem sleeps_100_microseconds_each_pass:
  "(\<exists>bs. trace (loop_body dev p) = trace p @ map Byte bs @ [Slept (microseconds 100)]) \<and>
   trace (run reliable (Suc n) (boot i)) =
     trace (run reliable n (boot i)) @ [Byte CHR ''.'', Byte newline, Slept 100] \<and>
   sleeps_of (trace (run dev n (boot i))) = replicate n 100 \<and>
   slept (run dev n (boot i)) = 100 * n"
proof -
  have "sleeps_of (trace (run dev n (boot i))) = replicate n 100"
    by (simp add: run_def iterations_sleeps setf_unitbuf_def boot_def)
  moreover from this have "slept (run dev n (boot i)) = 100 * n"
    by (simp add: slept_def sum_list_replicate)
  moreover have "trace (run reliable (Suc n) (boot i)) =
      trace (run reliable n (boot i)) @ [Byte CHR ''.'', Byte newline, Slept 100]"
    using run_ready [of n i] run_ready [of "Suc n" i]
    by (simp only: concat_replicate_snoc pass_events_def append_Cons)
  ultimately show ?thesis
    using loop_body_events by blast
qed

text \<open>
  Claim C5. At process start \<^verbatim>\<open>unitbuf\<close> is not set and nothing has happened. After the
  first statement and ever after, control is past line 5, \<^verbatim>\<open>unitbuf\<close> is set, and the one
  change of the format flags is the first event of the run, before any byte. A pass
  through the loop, from any state of the process, leaves the flag and the number of
  changes as they were.
\<close>
theorem unitbuf_set_once_before_loop:
  "(\<exists>p. exec dev 0 (start i) = Some (Line5_setf, p) \<and> \<not> unitbuf p \<and> trace p = []) \<and>
   (\<exists>q p es. exec dev (Suc n) (start i) = Some (q, p) \<and> q \<noteq> Line5_setf \<and> unitbuf p \<and>
      trace p = Configured # es \<and> count_list es Configured = 0 \<and> configurations p = 1) \<and>
   unitbuf (loop_body dev p0) = unitbuf p0 \<and>
   configurations (loop_body dev p0) = configurations p0"
proof -
  have "\<exists>p. exec dev 0 (start i) = Some (Line5_setf, p) \<and> \<not> unitbuf p \<and> trace p = []"
    by (simp add: start_def boot_def)
  moreover have "\<exists>q p es. exec dev (Suc n) (start i) = Some (q, p) \<and> q \<noteq> Line5_setf \<and>
      unitbuf p \<and> trace p = Configured # es \<and> count_list es Configured = 0 \<and>
      configurations p = 1"
  proof -
    obtain q p where run: "exec dev (Suc n) (start i) = Some (q, p)"
      and inv: "consistent i (q, p)" and q: "q \<noteq> Line5_setf"
      using exec_past_line5 [of dev n i] by blast
    from inv q obtain es where "unitbuf p" "trace p = Configured # es" "count_list es Configured = 0"
      by (auto simp add: consistent_def)
    moreover from this have "configurations p = 1"
      by (simp add: configurations_def)
    ultimately show ?thesis
      using run q by blast
  qed
  ultimately show ?thesis
    using loop_body_frame(1) loop_body_configurations by blast
qed

text \<open>
  Claim C6 speaks of a run observed for a duration \<open>T\<close> of at least 100 microseconds from
  process start. The program does not bound the time before its first write: on a
  platform that takes 100 microseconds over line 5, the process seen at that time has
  run one statement and has no line on standard output, with every write delivered.
\<close>
theorem no_line_at_100_microseconds_counterexample:
  "exec reliable 1 (start bare) = Some (Line6_while, setf_unitbuf (boot bare)) \<and>
   100 \<le> wall_clock slow_start 1 (setf_unitbuf (boot bare)) \<and>
   emitted_lines (setf_unitbuf (boot bare)) = 0"
  by (simp add: start_def wall_clock_def slow_start_def slept_def emitted_lines_def stdout_def
      setf_unitbuf_def boot_def)

text \<open>
  Claim C6, amended. With every write delivered: when control stands before the first
  sleep, the token and its terminator are the only bytes written and are on standard
  output. In every configuration of the run the time slept is 100 microseconds for each
  completed sleep and there are never more completed sleeps than lines; once 100
  microseconds have been slept, the run begins with the change of the flags, the token,
  the terminator and the first sleep, in this order, so standard output begins with the
  line \<^verbatim>\<open>.\<close> and the number of lines is not zero. No bound is given in time since
  process start.
\<close>
theorem first_line_precedes_first_sleep:
  "(\<exists>p. exec reliable 4 (start i) = Some (Line9_sleep, p) \<and>
      trace p = [Configured, Byte CHR ''.'', Byte newline] \<and> stdout p = ''.\<newline>'') \<and>
   (\<exists>q p. exec reliable n (start i) = Some (q, p) \<and>
      slept p = 100 * length (sleeps_of (trace p)) \<and>
      length (sleeps_of (trace p)) \<le> emitted_lines p \<and>
      (100 \<le> slept p \<longrightarrow>
         prefix [Configured, Byte CHR ''.'', Byte newline, Slept 100] (trace p) \<and>
         prefix ''.\<newline>'' (stdout p) \<and> 0 < emitted_lines p))"
proof -
  have "\<exists>p. exec reliable 4 (start i) = Some (Line9_sleep, p) \<and>
      trace p = [Configured, Byte CHR ''.'', Byte newline] \<and> stdout p = ''.\<newline>''"
    using before_first_sleep [of i] by (simp add: stdout_def newline_def)
  moreover have "\<exists>q p. exec reliable n (start i) = Some (q, p) \<and>
      slept p = 100 * length (sleeps_of (trace p)) \<and>
      length (sleeps_of (trace p)) \<le> emitted_lines p \<and>
      (100 \<le> slept p \<longrightarrow>
         prefix [Configured, Byte CHR ''.'', Byte newline, Slept 100] (trace p) \<and>
         prefix ''.\<newline>'' (stdout p) \<and> 0 < emitted_lines p)"
  proof -
    obtain q p where run: "exec reliable n (start i) = Some (q, p)"
      and inv: "consistent i (q, p)"
      using exec_consistent [of reliable n i] by auto
    have "good p"
      using run exec_reliable_good [of n i] by auto
    with inv have out: "stdout p =
        dot_lines (length (sleeps_of (trace p)) + (if q = Line9_sleep then 1 else 0))
        @ (if q = Line7_endl then ''.'' else [])"
      and time: "slept p = 100 * length (sleeps_of (trace p))"
      by (simp_all add: consistent_def)
    from out have count: "length (sleeps_of (trace p)) \<le> emitted_lines p"
      by (simp add: emitted_lines_def count_newline_dot_lines dot_is_not_newline)
    have "prefix first_pass (trace p)" if "100 \<le> slept p"
    proof (cases "n < 5")
      case True
      with run that show ?thesis
        using no_sleep_in_first_statements [of n i] by auto
    next
      case False
      with run show ?thesis
        using first_pass_stays [of n i] by auto
    qed
    then have "prefix [Configured, Byte CHR ''.'', Byte newline, Slept 100] (trace p) \<and>
        prefix ''.\<newline>'' (stdout p) \<and> 0 < emitted_lines p" if "100 \<le> slept p"
      using that first_pass_shows_line [of p] by (simp add: first_pass_def)
    with run time count show ?thesis
      by blast
  qed
  ultimately show ?thesis ..
qed

theorem first_line_precedes_first_sleep_witness:
  "\<exists>p. exec reliable 5 (start bare) = Some (Line6_while, p) \<and> 100 \<le> slept p \<and>
     prefix [Configured, Byte CHR ''.'', Byte newline, Slept 100] (trace p) \<and>
     prefix ''.\<newline>'' (stdout p) \<and> 0 < emitted_lines p"
proof -
  have at: "exec reliable 5 (start bare) = Some (Line6_while, run reliable 1 (boot bare))"
    using exec_reaches_loop_head [of reliable 1 bare] by simp
  have "slept (run reliable 1 (boot bare)) = 100"
    using run_ready [of 1 bare] by (simp add: slept_def pass_events_def)
  with first_line_precedes_first_sleep [of bare 5] at
  show ?thesis
    by simp
qed

text \<open>
  Claim C7. Two runs on the same device that start from different arguments, environment
  and standard input are, after any number of statements, at the same control point with
  processes that differ in the inputs only; their traces are equal, after every pass
  too, and \<^verbatim>\<open>main\<close> gives the same (no) result.
\<close>
theorem output_independent_of_inputs:
  "(\<exists>q p p'. exec dev n (start i) = Some (q, p) \<and> exec dev n (start j) = Some (q, p') \<and>
      trace p' = trace p \<and> p' = p\<lparr>given := j\<rparr>) \<and>
   trace (run dev n (boot j)) = trace (run dev n (boot i)) \<and>
   main dev (boot j) = main dev (boot i)"
proof -
  have *: "exec dev m (start j) = map_option (relabel j) (exec dev m (start i))" for m
    using exec_relabel [of dev m j "start i"] start_relabel [of j i] by simp
  obtain q p where run: "exec dev n (start i) = Some (q, p)"
    using exec_consistent [of dev n i] by auto
  with * [of n] have "exec dev n (start j) = Some (q, p\<lparr>given := j\<rparr>)"
    by (simp add: relabel_def)
  with run have "\<exists>q p p'. exec dev n (start i) = Some (q, p) \<and> exec dev n (start j) = Some (q, p') \<and>
      trace p' = trace p \<and> p' = p\<lparr>given := j\<rparr>"
    by simp
  moreover have "run dev n (boot j) = (run dev n (boot i))\<lparr>given := j\<rparr>"
    using * [of "Suc (4 * n)"] by (simp only: exec_reaches_loop_head) (simp add: relabel_def)
  then have "trace (run dev n (boot j)) = trace (run dev n (boot i))"
    by simp
  moreover have "main dev (boot j) = main dev (boot i)"
    by (simp add: main_def main_loop_diverges)
  ultimately show ?thesis
    by blast
qed

text \<open>
  Claim C8. A run on any device is, after any number of statements, at the control point
  of the run on the reliable device and has slept as often and as long; its output is an
  initial part of the reliable run's output, so a refused write adds nothing. A pass
  from any state of the process ends with its sleep, and on a stream that is no longer
  good a pass is the sleep and nothing else.
\<close>
theorem write_failure_not_examined:
  "(\<exists>q p p'. exec dev n (start i) = Some (q, p) \<and> exec reliable n (start i) = Some (q, p') \<and>
      sleeps_of (trace p) = sleeps_of (trace p') \<and> prefix (stdout p) (stdout p')) \<and>
   sleeps_of (trace (loop_body dev p0)) = sleeps_of (trace p0) @ [100] \<and>
   (\<not> good p0 \<longrightarrow> loop_body dev p0 = sleep_for (microseconds 100) p0)"
proof -
  obtain c d where run: "exec dev n (start i) = Some c" "exec reliable n (start i) = Some d"
    and rel: "shadows c d"
    using exec_shadows [of dev n i] by blast
  obtain q p where c: "c = (q, p)" by (cases c)
  obtain q' p' where d: "d = (q', p')" by (cases d)
  from rel c d have "q' = q" "sleeps_of (trace p) = sleeps_of (trace p')"
    "prefix (stdout p) (stdout p')"
    by (auto simp add: shadows_def split: if_splits)
  with run c d have "\<exists>q p p'. exec dev n (start i) = Some (q, p) \<and>
      exec reliable n (start i) = Some (q, p') \<and>
      sleeps_of (trace p) = sleeps_of (trace p') \<and> prefix (stdout p) (stdout p')"
    by simp
  moreover have "loop_body dev p0 = sleep_for (microseconds 100) p0" if "\<not> good p0"
    using that by (simp add: body_defs)
  ultimately show ?thesis
    using loop_body_sleeps by blast
qed

theorem write_failure_not_examined_witness:
  "\<not> good (run (\<lambda>k. False) 1 (boot bare)) \<and>
   loop_body (\<lambda>k. False) (run (\<lambda>k. False) 1 (boot bare)) =
     sleep_for (microseconds 100) (run (\<lambda>k. False) 1 (boot bare))"
proof -
  have "\<not> good (run (\<lambda>k. False) 1 (boot bare))"
    by (simp add: run_def boot_def setf_unitbuf_def body_defs)
  with write_failure_not_examined [of "\<lambda>k. False" 0 bare "run (\<lambda>k. False) 1 (boot bare)"]
  show ?thesis
    by simp
qed

text \<open>
  Claim C9. With every write delivered, after \<open>n\<close> completed passes through the loop
  standard output is \<open>n\<close> copies of the two characters \<^verbatim>\<open>.\<close> and newline, \<open>2 * n\<close>
  characters in all.
\<close>
theorem stdout_after_n_iterations:
  "stdout (run reliable n (boot i)) = concat (replicate n ''.\<newline>'') \<and>
   length (stdout (run reliable n (boot i))) = 2 * n"
proof -
  have "stdout (run reliable n (boot i)) = dot_lines n"
    using run_ready [of n i] by (simp add: stdout_def stdout_passes)
  then show ?thesis
    using length_dot_lines [of n] by (simp add: dot_lines_literal)
qed

text \<open>
  Claim C10. With every write delivered, the program without line 5 shows the same
  bytes and sleeps in the same order as the program with it, which shows the change of
  the flags in front and nothing more; after every pass standard output is the same in
  both and neither has anything left in the stream buffer; neither returns.
\<close>
theorem unitbuf_redundant_for_visibility:
  "trace (run reliable n (boot i)) = Configured # trace (run_without_unitbuf reliable n (boot i)) \<and>
   stdout (run reliable n (boot i)) = stdout (run_without_unitbuf reliable n (boot i)) \<and>
   pending (run reliable n (boot i)) = [] \<and>
   pending (run_without_unitbuf reliable n (boot i)) = [] \<and>
   main reliable (boot i) = main_without_unitbuf reliable (boot i)"
  using run_ready [of n i] run_without_unitbuf_ready [of n i]
  by (simp add: stdout_def main_def main_without_unitbuf_def main_loop_diverges)

end
